theory Spec2Isabelle
  imports Complex_Main "HOL-Library.Multiset"
begin

section \<open>Data model\<close>

text \<open>
  How a run of the engine of \<^verbatim>\<open>main.py\<close> can stop short. Four are Python
  exceptions: a division by zero (an empty population, an episode of zero steps), an
  index out of range (\<^verbatim>\<open>self.population[0]\<close> on an empty selection), a value error
  (unpacking a selection that does not hold two parents, a slice store whose shapes do
  not match, \<^verbatim>\<open>randint\<close> on an empty range) and an overflow error (an integer too large
  to become a float). \<open>NonFinite\<close> is no exception: it marks a float operation whose
  result is an infinity, a value that is not a real number; Python goes on with it, and
  the model follows such a run no further.
\<close>

datatype py_error = ZeroDivisionError | IndexError | ValueError | OverflowError | NonFinite

text \<open>
  Gene vectors are numpy arrays: mutable objects that are shared by reference, and a slice
  of one is a view of it. The heap holds every array by address; a new array
  (\<^verbatim>\<open>genes.copy()\<close>) is appended at the address \<open>length h\<close>. A finite float is the
  real number it denotes.
\<close>

type_synonym array = "real list"
type_synonym addr = nat
type_synonym heap = "array list"

text \<open>
  An Individual holds the address of its gene array and its evaluation fields. The only
  code that writes the fields of an Individual is \<^verbatim>\<open>get_fitness\<close>, run over the
  elements of the population list one after the other, so the population is a list of
  records that is rewritten elementwise.
\<close>

record individual =
  genes :: addr
  score :: int
  steps :: int
  fitness :: real
  seed :: "nat option"

definition Individual :: "addr \<Rightarrow> individual" where
  "Individual g = \<lparr>genes = g, score = 0, steps = 0, fitness = 0, seed = None\<rparr>"

record ga =
  p_size :: int
  c_size :: int
  genes_len :: int
  mutate_rate :: real
  population :: "individual list"
  best_individual :: "individual option"
  avg_score :: real

text \<open>
  The collaborators that are not part of \<^verbatim>\<open>main.py\<close> are parameters: the game
  (\<^verbatim>\<open>Game([genes]).play()\<close>, which returns score, steps and seed), the process-wide
  random generators and the rounding of the machine's floats. The game and the generators
  take the state \<open>'w\<close> of the outside world and return the next one.
  \<^item> \<open>random_sample\<close>: one draw of \<^verbatim>\<open>np.random.random\<close>, documented to lie in \<open>[0, 1)\<close>;
  \<^item> \<open>standard_normal\<close>: one draw of \<^verbatim>\<open>np.random.normal\<close>;
  \<^item> \<open>randint\<close>: \<^verbatim>\<open>np.random.randint(low, high)\<close>;
  \<^item> \<open>shuffle_perm\<close>: the rearrangement \<^verbatim>\<open>random.shuffle\<close> applies to a list of
    the given length, as the list of the old positions in their new order;
  \<^item> \<open>round_double\<close>: the float nearest to a real number in the range of the floats.
    Nothing is assumed of it.
\<close>

record 'w env =
  game_play :: "array \<Rightarrow> 'w \<Rightarrow> (int \<times> int \<times> nat) \<times> 'w"
  random_sample :: "'w \<Rightarrow> real \<times> 'w"
  standard_normal :: "'w \<Rightarrow> real \<times> 'w"
  randint :: "int \<Rightarrow> int \<Rightarrow> 'w \<Rightarrow> int \<times> 'w"
  shuffle_perm :: "nat \<Rightarrow> 'w \<Rightarrow> nat list \<times> 'w"
  round_double :: "real \<Rightarrow> real"

section \<open>Float arithmetic\<close>

text \<open>
  A binary64 operation returns the exact result rounded to the nearest float. The largest
  float is \<open>2 ^ 1024 - 2 ^ 971\<close>; an exact result of magnitude \<open>2 ^ 1024 - 2 ^ 970\<close> or
  more rounds to an infinity.
\<close>

definition float_bound :: real where
  "float_bound = 2 ^ 1024 - 2 ^ 970"

text \<open>A float operation whose exact result is \<open>x\<close>.\<close>

definition fl :: "'w env \<Rightarrow> real \<Rightarrow> py_error + real" where
  "fl env x = (if float_bound \<le> \<bar>x\<bar> then Inl NonFinite else Inr (round_double env x))"

text \<open>
  An integer operand of a float operation is converted to a float first; Python raises
  \<^verbatim>\<open>OverflowError\<close> when it is too large.
\<close>

definition int_to_float :: "'w env \<Rightarrow> int \<Rightarrow> py_error + real" where
  "int_to_float env n =
     (if float_bound \<le> \<bar>real_of_int n\<bar> then Inl OverflowError
      else Inr (round_double env (real_of_int n)))"

text \<open>
  \<^verbatim>\<open>a / b\<close> on two integers: the quotient rounded once, \<^verbatim>\<open>ZeroDivisionError\<close> on a
  zero divisor and \<^verbatim>\<open>OverflowError\<close> on a quotient too large.
\<close>

definition true_div :: "'w env \<Rightarrow> int \<Rightarrow> int \<Rightarrow> py_error + real" where
  "true_div env a b =
     (if b = 0 then Inl ZeroDivisionError
      else if float_bound \<le> \<bar>real_of_int a / real_of_int b\<bar> then Inl OverflowError
      else Inr (round_double env (real_of_int a / real_of_int b)))"

text \<open>The float that the literal \<^verbatim>\<open>0.2\<close> denotes.\<close>

definition double_02 :: real where
  "double_02 = 3602879701896397 / 18014398509481984"

section \<open>Individual.get_fitness\<close>

text \<open>
  \<^verbatim>\<open>(self.score + 1 / self.steps) * 100000\<close>: the division first, then the sum, whose
  integer operand is converted, then the product.
\<close>

definition fitness_of :: "'w env \<Rightarrow> int \<Rightarrow> int \<Rightarrow> py_error + real" where
  "fitness_of env sc st =
     (case true_div env 1 st of
        Inl e \<Rightarrow> Inl e
      | Inr q \<Rightarrow>
          (case int_to_float env sc of
             Inl e \<Rightarrow> Inl e
           | Inr s \<Rightarrow>
               (case fl env (s + q) of
                  Inl e \<Rightarrow> Inl e
                | Inr a \<Rightarrow> fl env (a * 100000))))"

definition get_fitness ::
  "'w env \<Rightarrow> heap \<Rightarrow> individual \<Rightarrow> 'w \<Rightarrow> py_error + individual \<times> 'w" where
  "get_fitness env h ind w =
     (case game_play env (h ! genes ind) w of
        ((sc, st, sd), w') \<Rightarrow>
          (case fitness_of env sc st of
             Inl e \<Rightarrow> Inl e
           | Inr f \<Rightarrow>
               Inr (ind\<lparr>score := sc, steps := st, seed := Some sd, fitness := f\<rparr>, w')))"

section \<open>Slices of numpy arrays\<close>

text \<open>
  \<^verbatim>\<open>a[:k]\<close> on an array of length \<open>n\<close> covers the indices below \<open>slice_stop n k\<close>:
  a stop beyond the end is clipped, a negative stop counts from the end.
\<close>

definition slice_stop :: "nat \<Rightarrow> int \<Rightarrow> nat" where
  "slice_stop n k = (if k < 0 then nat (int n + k) else min n (nat k))"

text \<open>
  The slice expression \<^verbatim>\<open>a[:k]\<close> copies nothing: it is a view, and what it holds is
  read from the heap when it is used.
\<close>

definition read_prefix :: "heap \<Rightarrow> addr \<Rightarrow> int \<Rightarrow> array" where
  "read_prefix h a k = take (slice_stop (length (h ! a)) k) (h ! a)"

text \<open>
  The slice store \<^verbatim>\<open>a[:k] = vs\<close>: the values are copied into the array in place. A
  source of another length is broadcast when it has one element and refused otherwise.
\<close>

definition assign_prefix :: "heap \<Rightarrow> addr \<Rightarrow> int \<Rightarrow> array \<Rightarrow> py_error + heap" where
  "assign_prefix h a k vs =
     (let m = slice_stop (length (h ! a)) k in
      if length vs = m then Inr (h[a := vs @ drop m (h ! a)])
      else if length vs = 1 then Inr (h[a := replicate m (hd vs) @ drop m (h ! a)])
      else Inl ValueError)"

section \<open>GA.crossover and GA.mutate\<close>

text \<open>
  \<^verbatim>\<open>c1_genes[:point + 1], c2_genes[:point + 1] = c2_genes[:point + 1], c1_genes[:point + 1]\<close>

  The right-hand side builds a pair of two views. The first store then copies the view
  of \<open>c2\<close> into \<open>c1\<close>; the second store copies the view of \<open>c1\<close>, read from the heap as
  the first store left it, into \<open>c2\<close>.
\<close>

definition crossover_at :: "int \<Rightarrow> addr \<Rightarrow> addr \<Rightarrow> heap \<Rightarrow> py_error + heap" where
  "crossover_at point c1_genes c2_genes h =
     (case assign_prefix h c1_genes (point + 1) (read_prefix h c2_genes (point + 1)) of
        Inl e \<Rightarrow> Inl e
      | Inr h1 \<Rightarrow>
          assign_prefix h1 c2_genes (point + 1) (read_prefix h1 c1_genes (point + 1)))"

definition crossover ::
  "'w env \<Rightarrow> ga \<Rightarrow> addr \<Rightarrow> addr \<Rightarrow> heap \<Rightarrow> 'w \<Rightarrow> py_error + heap \<times> 'w" where
  "crossover env g c1_genes c2_genes h w =
     (if genes_len g \<le> 0 then Inl ValueError
      else case randint env 0 (genes_len g) w of
        (point, w') \<Rightarrow>
          (case crossover_at point c1_genes c2_genes h of
             Inl e \<Rightarrow> Inl e
           | Inr h' \<Rightarrow> Inr (h', w')))"

fun draws :: "('w \<Rightarrow> 'a \<times> 'w) \<Rightarrow> nat \<Rightarrow> 'w \<Rightarrow> 'a list \<times> 'w" where
  "draws f 0 w = ([], w)"
| "draws f (Suc n) w =
     (case f w of (x, w1) \<Rightarrow> (case draws f n w1 of (xs, w2) \<Rightarrow> (x # xs, w2)))"

text \<open>
  The components that the mask selects: \<^verbatim>\<open>mutation[mutation_array] *= 0.2\<close>, then
  \<^verbatim>\<open>c_genes[mutation_array] += mutation[mutation_array]\<close>, two float operations on
  each; the other components stay as they are.
\<close>

fun mutate_components ::
  "'w env \<Rightarrow> bool list \<Rightarrow> real list \<Rightarrow> array \<Rightarrow> py_error + array" where
  "mutate_components env (b # bs) (n # ns) (x # xs) =
     (case (if b then
              (case fl env (n * double_02) of
                 Inl e \<Rightarrow> Inl e
               | Inr m \<Rightarrow> fl env (x + m))
            else Inr x) of
        Inl e \<Rightarrow> Inl e
      | Inr y \<Rightarrow>
          (case mutate_components env bs ns xs of
             Inl e \<Rightarrow> Inl e
           | Inr ys \<Rightarrow> Inr (y # ys)))"
| "mutate_components env bs ns xs = Inr []"

definition mutate ::
  "'w env \<Rightarrow> ga \<Rightarrow> addr \<Rightarrow> heap \<Rightarrow> 'w \<Rightarrow> py_error + heap \<times> 'w" where
  "mutate env g c_genes h w =
     (case draws (random_sample env) (length (h ! c_genes)) w of
        (us, w1) \<Rightarrow>
          (case draws (standard_normal env) (length (h ! c_genes)) w1 of
             (mutation, w2) \<Rightarrow>
               let mutation_array = map (\<lambda>u. u < mutate_rate g) us
               in (case mutate_components env mutation_array mutation (h ! c_genes) of
                     Inl e \<Rightarrow> Inl e
                   | Inr c_genes' \<Rightarrow> Inr (h[c_genes := c_genes'], w2))))"

section \<open>Selection\<close>

text \<open>
  \<^verbatim>\<open>sorted(self.population, key=fitness, reverse=True)\<close> is a stable sort into
  descending order that builds a new list; \<open>sort_key\<close> on the negated key is the same
  order. The method does not assign to \<^verbatim>\<open>self\<close>: the engine comes back as it was.
\<close>

definition elitism_selection :: "ga \<Rightarrow> int \<Rightarrow> individual list \<times> ga" where
  "elitism_selection g sz =
     (let population' = sort_key (\<lambda>i. - fitness i) (population g)
      in (take (slice_stop (length population') sz) population', g))"

text \<open>
  \<^verbatim>\<open>np.random.uniform(low, high)\<close> is \<open>low + (high - low) * u\<close> for one draw \<open>u\<close> of
  the generator in \<open>[0, 1)\<close>.
\<close>

definition uniform :: "real \<Rightarrow> real \<Rightarrow> real \<Rightarrow> real" where
  "uniform low high u = low + (high - low) * u"

text \<open>The inner loop of the wheel: the first individual whose running sum exceeds the pick.\<close>

fun spin :: "real \<Rightarrow> real \<Rightarrow> individual list \<Rightarrow> individual option" where
  "spin pick current [] = None"
| "spin pick current (x # xs) =
     (if current + fitness x > pick then Some x else spin pick (current + fitness x) xs)"

fun roulette_draws ::
  "'w env \<Rightarrow> individual list \<Rightarrow> real \<Rightarrow> nat \<Rightarrow> individual list \<Rightarrow> 'w \<Rightarrow> individual list \<times> 'w" where
  "roulette_draws env pop wheel 0 selection w = (selection, w)"
| "roulette_draws env pop wheel (Suc n) selection w =
     (case random_sample env w of
        (u, w') \<Rightarrow>
          roulette_draws env pop wheel n
            (case spin (uniform 0 wheel u) 0 pop of
               None \<Rightarrow> selection
             | Some x \<Rightarrow> selection @ [x]) w')"

definition roulette_wheel_selection ::
  "'w env \<Rightarrow> ga \<Rightarrow> int \<Rightarrow> 'w \<Rightarrow> individual list \<times> 'w" where
  "roulette_wheel_selection env g sz w =
     roulette_draws env (population g) (sum_list (map fitness (population g))) (nat sz) [] w"

text \<open>The values of \<^verbatim>\<open>pick\<close> in the successive rounds of the outer loop.\<close>

fun picks :: "'w env \<Rightarrow> real \<Rightarrow> nat \<Rightarrow> 'w \<Rightarrow> real list" where
  "picks env wheel 0 w = []"
| "picks env wheel (Suc n) w =
     (case random_sample env w of (u, w') \<Rightarrow> uniform 0 wheel u # picks env wheel n w')"

section \<open>GA.evolve\<close>

text \<open>
  \<^verbatim>\<open>for individual in self.population: individual.get_fitness()\<close>, the loop that opens
  both \<^verbatim>\<open>evolve\<close> and \<^verbatim>\<open>save_all\<close>. The sum of the scores that \<^verbatim>\<open>evolve\<close>
  accumulates beside it is the sum over the evaluated list.
\<close>

fun evaluate_all ::
  "'w env \<Rightarrow> heap \<Rightarrow> individual list \<Rightarrow> 'w \<Rightarrow> py_error + individual list \<times> 'w" where
  "evaluate_all env h [] w = Inr ([], w)"
| "evaluate_all env h (ind # rest) w =
     (case get_fitness env h ind w of
        Inl e \<Rightarrow> Inl e
      | Inr (ind', w1) \<Rightarrow>
          (case evaluate_all env h rest w1 of
             Inl e \<Rightarrow> Inl e
           | Inr (rest', w2) \<Rightarrow> Inr (ind' # rest', w2)))"

definition shuffle :: "'w env \<Rightarrow> 'a list \<Rightarrow> 'w \<Rightarrow> 'a list \<times> 'w" where
  "shuffle env xs w =
     (case shuffle_perm env (length xs) w of (perm, w') \<Rightarrow> (map (\<lambda>i. xs ! i) perm, w'))"

text \<open>
  The body of \<^verbatim>\<open>evolve\<close> with the draw of the two parents,
  \<^verbatim>\<open>self.roulette_wheel_selection(2)\<close>, as the parameter \<open>wheel\<close>: what is proved of
  \<open>evolve_with\<close> for every \<open>wheel\<close> holds however the arithmetic of the wheel rounds.
  \<open>evolve\<close> below is \<open>evolve_with\<close> at the wheel of this file.

  One round of the reproduction loop: two parents from the wheel, a copy of the genes of
  each at a fresh address, crossover and mutation on the copies, two new Individuals.
\<close>

definition reproduce_pair ::
  "(ga \<Rightarrow> 'w \<Rightarrow> individual list \<times> 'w) \<Rightarrow> 'w env \<Rightarrow> ga \<Rightarrow> heap \<Rightarrow> 'w
     \<Rightarrow> py_error + individual \<times> individual \<times> heap \<times> 'w" where
  "reproduce_pair wheel env g h w =
     (case wheel g w of
        (sel, w1) \<Rightarrow>
          (case sel of
             [p1, p2] \<Rightarrow>
               let c1_genes = length h;
                   h1 = h @ [h ! genes p1];
                   c2_genes = length h1;
                   h2 = h1 @ [h1 ! genes p2]
               in (case crossover env g c1_genes c2_genes h2 w1 of
                     Inl e \<Rightarrow> Inl e
                   | Inr (h3, w2) \<Rightarrow>
                       (case mutate env g c1_genes h3 w2 of
                          Inl e \<Rightarrow> Inl e
                        | Inr (h4, w3) \<Rightarrow>
                            (case mutate env g c2_genes h4 w3 of
                               Inl e \<Rightarrow> Inl e
                             | Inr (h5, w4) \<Rightarrow>
                                 Inr (Individual c1_genes, Individual c2_genes, h5, w4))))
           | _ \<Rightarrow> Inl ValueError))"

function reproduce ::
  "(ga \<Rightarrow> 'w \<Rightarrow> individual list \<times> 'w) \<Rightarrow> 'w env \<Rightarrow> ga \<Rightarrow> individual list \<Rightarrow> heap \<Rightarrow> 'w
     \<Rightarrow> py_error + individual list \<times> heap \<times> 'w" where
  "reproduce wheel env g children h w =
     (if int (length children) < c_size g then
        (case reproduce_pair wheel env g h w of
           Inl e \<Rightarrow> Inl e
         | Inr (c1, c2, h', w') \<Rightarrow> reproduce wheel env g (children @ [c1, c2]) h' w')
      else Inr (children, h, w))"
  by pat_completeness auto
termination
  by (relation "measure (\<lambda>(wheel, env, g, children, h, w). nat (c_size g - int (length children)))")
    auto

definition evolve_with ::
  "(ga \<Rightarrow> 'w \<Rightarrow> individual list \<times> 'w) \<Rightarrow> 'w env \<Rightarrow> ga \<Rightarrow> heap \<Rightarrow> 'w
     \<Rightarrow> py_error + ga \<times> heap \<times> 'w" where
  "evolve_with wheel env g h w =
     (case evaluate_all env h (population g) w of
        Inl e \<Rightarrow> Inl e
      | Inr (pop1, w1) \<Rightarrow>
          (case true_div env (sum_list (map score pop1)) (int (length pop1)) of
             Inl e \<Rightarrow> Inl e
           | Inr avg \<Rightarrow>
               let g1 = g\<lparr>population := pop1, avg_score := avg\<rparr>
               in (case fst (elitism_selection g1 (p_size g1)) of
                     [] \<Rightarrow> Inl IndexError
                   | best # others \<Rightarrow>
                       (case shuffle env (best # others) w1 of
                          (parents, w2) \<Rightarrow>
                            let g2 = g1\<lparr>population := parents, best_individual := Some best\<rparr>
                            in (case reproduce wheel env g2 [] h w2 of
                                  Inl e \<Rightarrow> Inl e
                                | Inr (children, h', w3) \<Rightarrow>
                                    (case shuffle env children w3 of
                                       (children', w4) \<Rightarrow>
                                         Inr (g2\<lparr>population := parents @ children'\<rparr>, h', w4)))))))"

definition evolve :: "'w env \<Rightarrow> ga \<Rightarrow> heap \<Rightarrow> 'w \<Rightarrow> py_error + ga \<times> heap \<times> 'w" where
  "evolve env g h w = evolve_with (\<lambda>g' w'. roulette_wheel_selection env g' 2 w') env g h w"

section \<open>GA.save_all\<close>

text \<open>
  The files \<^verbatim>\<open>genes/all/{i}\<close> as a map from the slot \<open>i\<close> to the gene vector written
  there. The loop runs over the indices of the local, selected list and writes
  \<^verbatim>\<open>self.population[i].genes\<close>; the selection is never longer than the population, so
  the index is in range.
\<close>

fun write_slots ::
  "heap \<Rightarrow> individual list \<Rightarrow> nat list \<Rightarrow> (nat \<rightharpoonup> array) \<Rightarrow> (nat \<rightharpoonup> array)" where
  "write_slots h pop [] files = files"
| "write_slots h pop (i # rest) files =
     write_slots h pop rest (files(i \<mapsto> h ! genes (pop ! i)))"

definition save_all ::
  "'w env \<Rightarrow> ga \<Rightarrow> heap \<Rightarrow> (nat \<rightharpoonup> array) \<Rightarrow> 'w \<Rightarrow> py_error + ga \<times> (nat \<rightharpoonup> array) \<times> 'w" where
  "save_all env g h files w =
     (case evaluate_all env h (population g) w of
        Inl e \<Rightarrow> Inl e
      | Inr (pop1, w1) \<Rightarrow>
          let g1 = g\<lparr>population := pop1\<rparr>;
              population' = fst (elitism_selection g1 (p_size g1))
          in Inr (g1, write_slots h (population g1) [0..<length population'] files, w1))"

section \<open>Contract of the shuffle\<close>

text \<open>\<^verbatim>\<open>random.shuffle\<close> rearranges: each position of the list is used once.\<close>

definition shuffle_permutes :: "'w env \<Rightarrow> bool" where
  "shuffle_permutes env \<longleftrightarrow> (\<forall>n w. mset (fst (shuffle_perm env n w)) = mset [0..<n])"

section \<open>A concrete engine\<close>

text \<open>
  A small engine on which the theorems below are run: a game that scores 1 when the
  genes sum to more than 0 and always takes one step under the seed 42, a generator that
  always draws 1/2, normal draws of 1, the crossover point at the low end of its range,
  and a shuffle that reverses the list. With a mutation rate of 0 no component is
  mutated, and every float operation of a run from \<open>g0\<close> has an exact result that is a
  float, so that the rounding leaves it as it is.
\<close>

definition env0 :: "unit env" where
  "env0 = \<lparr>game_play = (\<lambda>a w. ((if 0 < sum_list a then 1 else 0, 1, 42), w)),
           random_sample = (\<lambda>w. (1 / 2, w)),
           standard_normal = (\<lambda>w. (1, w)),
           randint = (\<lambda>low high w. (low, w)),
           shuffle_perm = (\<lambda>n w. (rev [0..<n], w)),
           round_double = (\<lambda>x. x)\<rparr>"

definition h0 :: heap where
  "h0 = [[-1, -2], [3, 4]]"

definition g0 :: ga where
  "g0 = \<lparr>p_size = 2, c_size = 2, genes_len = 2, mutate_rate = 0,
         population = [Individual 0, Individual 1], best_individual = None, avg_score = 0\<rparr>"

text \<open>The population of \<open>g0\<close> as the game evaluates it, and the engine that holds it.\<close>

definition pop_eval :: "individual list" where
  "pop_eval = [\<lparr>genes = 0, score = 0, steps = 1, fitness = 100000, seed = Some 42\<rparr>,
           \<lparr>genes = 1, score = 1, steps = 1, fitness = 200000, seed = Some 42\<rparr>]"

definition g_eval :: ga where
  "g_eval = g0\<lparr>population := pop_eval, avg_score := 1 / 2\<rparr>"

text \<open>
  The engine after the selection of the parents, the heap and the engine after
  \<^verbatim>\<open>evolve\<close>, and the population of that engine as the next evaluation leaves it.
\<close>

definition g_par :: ga where
  "g_par = g_eval\<lparr>best_individual := Some (pop_eval ! 1)\<rparr>"

definition h_after :: heap where
  "h_after = [[-1, -2], [3, 4], [3, 4], [3, 4]]"

definition g_after :: ga where
  "g_after = g_par\<lparr>population := pop_eval @ [Individual 3, Individual 2]\<rparr>"

definition pop_next :: "individual list" where
  "pop_next = pop_eval @
     [\<lparr>genes = 3, score = 1, steps = 1, fitness = 200000, seed = Some 42\<rparr>,
      \<lparr>genes = 2, score = 1, steps = 1, fitness = 200000, seed = Some 42\<rparr>]"

text \<open>A game that returns a score of \<open>10 ^ 400\<close>.\<close>

definition env_big :: "unit env" where
  "env_big = env0\<lparr>game_play := (\<lambda>a w. ((10 ^ 400, 1, 42), w))\<rparr>"

section \<open>Fitness\<close>

lemma true_div_one:
  assumes "0 < st"
  shows "true_div env 1 st = Inr (round_double env (1 / real_of_int st))"
proof -
  have "1 \<le> real_of_int st" using assms by simp
  then have "\<bar>1 / real_of_int st\<bar> \<le> 1" by (simp add: divide_le_eq)
  moreover have "(1::real) < float_bound" by (simp add: float_bound_def)
  ultimately have "\<not> float_bound \<le> \<bar>1 / real_of_int st\<bar>" by linarith
  then show ?thesis using assms by (simp add: true_div_def)
qed

text \<open>
  C5, as the code has it. For every Individual and every result (score, steps, seed) of
  the game with steps > 0, a score that is not too large to become a float, and a sum and a
  product that are not infinite: evaluation succeeds, the score, steps and seed of the
  Individual are the returned values, and its fitness is (score + 1/steps) * 100000 in
  float arithmetic: the score converted, the quotient, the sum and the product each
  rounded to a float. The genes are the ones it had, and the state of the outside world
  is the one the game left.
\<close>

theorem get_fitness_sets_fields:
  assumes "game_play env (h ! genes ind) w = ((sc, st, sd), w')" and "0 < st"
    and "\<bar>real_of_int sc\<bar> < float_bound"
    and "\<bar>round_double env (real_of_int sc) + round_double env (1 / real_of_int st)\<bar>
           < float_bound"
    and "\<bar>round_double env (round_double env (real_of_int sc)
             + round_double env (1 / real_of_int st)) * 100000\<bar> < float_bound"
  shows "\<exists>ind'. get_fitness env h ind w = Inr (ind', w')
           \<and> score ind' = sc \<and> steps ind' = st \<and> seed ind' = Some sd
           \<and> fitness ind'
               = round_double env (round_double env (round_double env (real_of_int sc)
                   + round_double env (1 / real_of_int st)) * 100000)
           \<and> genes ind' = genes ind"
proof -
  have q: "true_div env 1 st = Inr (round_double env (1 / real_of_int st))"
    using assms(2) by (rule true_div_one)
  have s: "int_to_float env sc = Inr (round_double env (real_of_int sc))"
    using assms(3) by (simp add: int_to_float_def)
  have a: "fl env (round_double env (real_of_int sc) + round_double env (1 / real_of_int st))
      = Inr (round_double env (round_double env (real_of_int sc)
               + round_double env (1 / real_of_int st)))"
    using assms(4) by (simp add: fl_def)
  have f: "fl env (round_double env (round_double env (real_of_int sc)
               + round_double env (1 / real_of_int st)) * 100000)
      = Inr (round_double env (round_double env (round_double env (real_of_int sc)
               + round_double env (1 / real_of_int st)) * 100000))"
    using assms(5) by (simp add: fl_def)
  have "fitness_of env sc st
      = Inr (round_double env (round_double env (round_double env (real_of_int sc)
               + round_double env (1 / real_of_int st)) * 100000))"
    by (simp add: fitness_of_def q s a f)
  then show ?thesis using assms(1) by (simp add: get_fitness_def)
qed

theorem get_fitness_sets_fields_witness:
  "game_play env0 (h0 ! genes (Individual 1)) () = ((1, 1, 42), ()) \<and> (0::int) < 1
     \<and> \<bar>real_of_int 1\<bar> < float_bound
     \<and> (\<exists>ind'. get_fitness env0 h0 (Individual 1) () = Inr (ind', ())
           \<and> score ind' = 1 \<and> steps ind' = 1 \<and> seed ind' = Some 42
           \<and> fitness ind' = 200000
           \<and> genes ind' = genes (Individual 1))"
proof -
  have play: "game_play env0 (h0 ! genes (Individual 1)) () = ((1, 1, 42), ())"
    by (simp add: env0_def h0_def Individual_def)
  have pos: "(0::int) < 1" by simp
  have b1: "\<bar>real_of_int 1\<bar> < float_bound" by (simp add: float_bound_def)
  have b2: "\<bar>round_double env0 (real_of_int 1) + round_double env0 (1 / real_of_int 1)\<bar>
           < float_bound"
    by (simp add: env0_def float_bound_def)
  have b3: "\<bar>round_double env0 (round_double env0 (real_of_int 1)
             + round_double env0 (1 / real_of_int 1)) * 100000\<bar> < float_bound"
    by (simp add: env0_def float_bound_def)
  have v: "round_double env0 (round_double env0 (round_double env0 (real_of_int 1)
                   + round_double env0 (1 / real_of_int 1)) * 100000) = 200000"
    by (simp add: env0_def)
  from get_fitness_sets_fields [OF play pos b1 b2 b3] v play pos b1
  show ?thesis by auto
qed

text \<open>
  C5 as it is stated fails: a game that returns the score \<open>10 ^ 400\<close> in one step meets
  steps > 0, and evaluation raises \<^verbatim>\<open>OverflowError\<close> instead of setting the fitness.
\<close>

theorem get_fitness_overflow_counterexample:
  "game_play env_big (h0 ! genes (Individual 0)) () = ((10 ^ 400, 1, 42), ())
     \<and> get_fitness env_big h0 (Individual 0) () = Inl OverflowError"
  by (simp add: env_big_def env0_def get_fitness_def fitness_of_def true_div_def
      int_to_float_def float_bound_def)

section \<open>Crossover\<close>

text \<open>
  C1. Crossover at the point 0 of the vectors (1, 2, 3) and (4, 5, 6), held at the
  addresses 0 and 1: the first vector receives the prefix of the second, and the second
  vector is left as it was, because the view of the first vector is read after the first
  store. A swap would leave (1, 5, 6) at the address 1.
\<close>

theorem crossover_at_second_vector_kept:
  "crossover_at 0 0 1 [[1, 2, 3], [4, 5, 6]] = Inr [[4, 2, 3], [4, 5, 6]]"
  by (simp add: crossover_at_def assign_prefix_def read_prefix_def slice_stop_def)

section \<open>Selection operators\<close>

lemma slice_stop_le: "slice_stop n k \<le> n"
  by (cases "k < 0") (simp_all add: slice_stop_def nat_le_iff)

lemma slice_stop_in_range: "0 \<le> k \<Longrightarrow> k \<le> int n \<Longrightarrow> slice_stop n k = nat k"
  by (simp add: slice_stop_def)

lemma sorted_desc_sort_key:
  "sorted_wrt (\<lambda>a b. fitness b \<le> fitness a) (sort_key (\<lambda>i. - fitness i) xs)"
proof -
  have "sorted (map (\<lambda>i. - fitness i) (sort_key (\<lambda>i. - fitness i) xs))"
    by (rule sorted_sort_key)
  then show ?thesis by (simp add: sorted_wrt_map)
qed

lemma mset_take_subset: "mset (take n xs) \<subseteq># mset xs"
proof -
  have "mset xs = mset (take n xs) + mset (drop n xs)"
    by (metis append_take_drop_id mset_append)
  then show ?thesis by simp
qed

lemma elitism_selection_take:
  "fst (elitism_selection g k)
     = take (slice_stop (length (population g)) k) (sort_key (\<lambda>i. - fitness i) (population g))"
  by (simp add: elitism_selection_def Let_def)

text \<open>
  C7. For every population and every k with 0 <= k <= population size,
  elitism_selection(k) returns exactly k individuals, in descending order of fitness,
  each of them an individual of the population (as often at most as it occurs there),
  and the engine, its population with it, is as it was.
\<close>

theorem elitism_selection_top_k:
  assumes "0 \<le> k" and "k \<le> int (length (population g))"
  shows "int (length (fst (elitism_selection g k))) = k
           \<and> sorted_wrt (\<lambda>a b. fitness b \<le> fitness a) (fst (elitism_selection g k))
           \<and> mset (fst (elitism_selection g k)) \<subseteq># mset (population g)
           \<and> set (fst (elitism_selection g k)) \<subseteq> set (population g)
           \<and> snd (elitism_selection g k) = g"
proof -
  let ?s = "sort_key (\<lambda>i. - fitness i) (population g)"
  have stop: "slice_stop (length ?s) k = nat k"
    using assms by (simp add: slice_stop_in_range)
  have sel: "fst (elitism_selection g k) = take (nat k) ?s"
    using stop by (simp add: elitism_selection_def Let_def)
  have len: "int (length (fst (elitism_selection g k))) = k"
    using assms by (simp add: sel)
  have srt: "sorted_wrt (\<lambda>a b. fitness b \<le> fitness a) (fst (elitism_selection g k))"
    unfolding sel by (rule sorted_wrt_take) (rule sorted_desc_sort_key)
  have "mset (take (nat k) ?s) \<subseteq># mset ?s" by (rule mset_take_subset)
  then have sub: "mset (fst (elitism_selection g k)) \<subseteq># mset (population g)"
    by (simp add: sel)
  have sub': "set (fst (elitism_selection g k)) \<subseteq> set (population g)"
    using set_mset_mono [OF sub] by simp
  have same: "snd (elitism_selection g k) = g"
    by (simp add: elitism_selection_def Let_def)
  from len srt sub sub' same show ?thesis by blast
qed

theorem elitism_selection_top_k_witness:
  "(0::int) \<le> 1 \<and> 1 \<le> int (length (population g_eval))
     \<and> int (length (fst (elitism_selection g_eval 1))) = 1
     \<and> sorted_wrt (\<lambda>a b. fitness b \<le> fitness a) (fst (elitism_selection g_eval 1))
     \<and> mset (fst (elitism_selection g_eval 1)) \<subseteq># mset (population g_eval)
     \<and> set (fst (elitism_selection g_eval 1)) \<subseteq> set (population g_eval)
     \<and> snd (elitism_selection g_eval 1) = g_eval
     \<and> fst (elitism_selection g_eval 1) = [pop_eval ! 1]"
proof -
  have a: "(0::int) \<le> 1" by simp
  have b: "1 \<le> int (length (population g_eval))" by (simp add: g_eval_def pop_eval_def)
  have c: "fst (elitism_selection g_eval 1) = [pop_eval ! 1]"
    by (simp add: elitism_selection_def g_eval_def pop_eval_def slice_stop_def)
  from elitism_selection_top_k [OF a b] a b c show ?thesis by blast
qed

lemma roulette_draws_picks:
  "fst (roulette_draws env pop wheel n sel w)
     = sel @ List.map_filter (\<lambda>p. spin p 0 pop) (picks env wheel n w)"
proof (induction n arbitrary: sel w)
  case 0
  then show ?case by (simp add: map_filter_simps)
next
  case (Suc n)
  obtain u w' where d: "random_sample env w = (u, w')" by (cases "random_sample env w")
  show ?case
    by (cases "spin (uniform 0 wheel u) 0 pop") (simp_all add: d Suc map_filter_simps)
qed

lemma length_picks: "length (picks env wheel n w) = n"
  by (induction n arbitrary: w) (auto split: prod.splits)

lemma spin_zero: "\<forall>x\<in>set pop. fitness x = 0 \<Longrightarrow> spin 0 0 pop = None"
  by (induction pop) simp_all

lemma picks_zero: "picks env 0 n w = replicate n 0"
  by (induction n arbitrary: w) (auto simp: uniform_def split: prod.splits)

lemma map_filter_all_None: "\<forall>p\<in>set ps. f p = None \<Longrightarrow> List.map_filter f ps = []"
  by (induction ps) (simp_all add: map_filter_simps)

lemma sum_fitness_zero: "\<forall>x\<in>set xs. fitness x = 0 \<Longrightarrow> sum_list (map fitness xs) = 0"
  by (induction xs) simp_all

text \<open>
  C10. For every non-empty population in which every fitness is 0 and every k >= 1 the
  wheel is 0, every pick is 0, no running sum exceeds the pick, and
  roulette_wheel_selection(k) returns the empty list, whatever the generator draws.
\<close>

theorem roulette_all_zero_selects_nothing:
  assumes "population g \<noteq> []" and "\<forall>x\<in>set (population g). fitness x = 0" and "1 \<le> k"
  shows "sum_list (map fitness (population g)) = 0
           \<and> picks env (sum_list (map fitness (population g))) (nat k) w = replicate (nat k) 0
           \<and> spin 0 0 (population g) = None
           \<and> fst (roulette_wheel_selection env g k w) = []"
proof -
  have wheel: "sum_list (map fitness (population g)) = 0"
    using assms(2) by (rule sum_fitness_zero)
  have ps: "picks env (sum_list (map fitness (population g))) (nat k) w = replicate (nat k) 0"
    by (simp add: wheel picks_zero)
  have none: "spin 0 0 (population g) = None"
    using assms(2) by (rule spin_zero)
  have "List.map_filter (\<lambda>p. spin p 0 (population g)) (replicate (nat k) 0) = []"
    by (rule map_filter_all_None) (simp add: none)
  then have "fst (roulette_wheel_selection env g k w) = []"
    unfolding roulette_wheel_selection_def roulette_draws_picks ps by simp
  with wheel ps none show ?thesis by blast
qed

theorem roulette_all_zero_selects_nothing_witness:
  "population g0 = [Individual 0, Individual 1]
     \<and> fitness (Individual 0) = 0 \<and> fitness (Individual 1) = 0 \<and> (1::int) \<le> 2
     \<and> sum_list (map fitness (population g0)) = 0
     \<and> picks env0 (sum_list (map fitness (population g0))) (nat 2) () = replicate (nat 2) 0
     \<and> spin 0 0 (population g0) = None
     \<and> fst (roulette_wheel_selection env0 g0 2 ()) = []"
proof -
  have a: "population g0 = [Individual 0, Individual 1]" by (simp add: g0_def)
  have b: "fitness (Individual 0) = 0" "fitness (Individual 1) = 0"
    by (simp_all add: Individual_def)
  have ne: "population g0 \<noteq> []" by (simp add: a)
  have zero: "\<forall>x\<in>set (population g0). fitness x = 0" using b by (simp add: a)
  have k: "(1::int) \<le> 2" by simp
  from roulette_all_zero_selects_nothing [OF ne zero k, of env0 "()"] a b k
  show ?thesis by blast
qed

section \<open>Evaluation, shuffle and stores\<close>

lemma get_fitness_genes:
  assumes "get_fitness env h ind w = Inr (ind', w')"
  shows "genes ind' = genes ind"
  using assms by (auto simp: get_fitness_def split: prod.splits sum.splits)

lemma evaluate_all_Inr:
  "evaluate_all env h pop w = Inr (pop1, w1) \<Longrightarrow>
     length pop1 = length pop \<and> map genes pop1 = map genes pop"
proof (induction pop arbitrary: w pop1)
  case Nil
  then show ?case by simp
next
  case (Cons ind rest)
  from Cons.prems obtain ind' wa rest' where
    a: "get_fitness env h ind w = Inr (ind', wa)" and
    b: "evaluate_all env h rest wa = Inr (rest', w1)" and
    c: "pop1 = ind' # rest'"
    by (auto split: sum.splits prod.splits)
  from Cons.IH [OF b] get_fitness_genes [OF a] c show ?case by simp
qed

lemma genes_of_evaluated:
  assumes "map genes pop1 = map genes pop" and "p \<in> set pop1"
  shows "\<exists>q\<in>set pop. genes q = genes p"
proof -
  from assms(2) have "genes p \<in> set (map genes pop1)" by simp
  with assms(1) have "genes p \<in> set (map genes pop)" by simp
  then show ?thesis by auto
qed

lemma shuffle_mset:
  assumes "shuffle_permutes env"
  shows "mset (fst (shuffle env xs w)) = mset xs"
proof -
  obtain perm w' where p: "shuffle_perm env (length xs) w = (perm, w')"
    by (cases "shuffle_perm env (length xs) w")
  have "mset perm = mset [0..<length xs]"
    using assms p by (metis fst_conv shuffle_permutes_def)
  then have "mset (map ((!) xs) perm) = mset (map ((!) xs) [0..<length xs])"
    by (simp only: mset_map)
  then show ?thesis by (simp add: shuffle_def p map_nth)
qed

lemma shuffle_length:
  assumes "shuffle_permutes env" and "shuffle env xs w = (ys, w')"
  shows "length ys = length xs"
proof -
  have "mset ys = mset xs" using shuffle_mset [OF assms(1), of xs w] assms(2) by simp
  then show ?thesis by (metis size_mset)
qed

lemma assign_prefix_frame:
  assumes "assign_prefix h a k vs = Inr h'"
  shows "length h' = length h \<and> (\<forall>b. b \<noteq> a \<longrightarrow> h' ! b = h ! b)"
  using assms by (auto simp: assign_prefix_def Let_def split: if_splits)

lemma crossover_at_frame:
  assumes "crossover_at point c1 c2 h = Inr h'"
  shows "length h' = length h \<and> (\<forall>b. b \<noteq> c1 \<and> b \<noteq> c2 \<longrightarrow> h' ! b = h ! b)"
proof -
  from assms obtain h1 where
    a: "assign_prefix h c1 (point + 1) (read_prefix h c2 (point + 1)) = Inr h1" and
    b: "assign_prefix h1 c2 (point + 1) (read_prefix h1 c1 (point + 1)) = Inr h'"
    by (auto simp: crossover_at_def split: sum.splits)
  from assign_prefix_frame [OF a] assign_prefix_frame [OF b] show ?thesis by simp
qed

lemma crossover_frame:
  assumes "crossover env g c1 c2 h w = Inr (h', w')"
  shows "length h' = length h \<and> (\<forall>b. b \<noteq> c1 \<and> b \<noteq> c2 \<longrightarrow> h' ! b = h ! b)"
proof -
  from assms obtain point where "crossover_at point c1 c2 h = Inr h'"
    by (auto simp: crossover_def split: if_splits prod.splits sum.splits)
  then show ?thesis by (rule crossover_at_frame)
qed

lemma mutate_frame:
  assumes "mutate env g c h w = Inr (h', w')"
  shows "length h' = length h \<and> (\<forall>b. b \<noteq> c \<longrightarrow> h' ! b = h ! b)"
  using assms by (auto simp: mutate_def Let_def split: prod.splits sum.splits)

section \<open>Reproduction\<close>

lemma reproduce_pair_Inr:
  assumes "reproduce_pair wheel env g h w = Inr (c1, c2, h', w')"
  shows "\<exists>p1 p2 w1 h3 w2 h4 w3.
      wheel g w = ([p1, p2], w1)
    \<and> crossover env g (length h) (Suc (length h))
          (h @ [h ! genes p1, (h @ [h ! genes p1]) ! genes p2]) w1 = Inr (h3, w2)
    \<and> mutate env g (length h) h3 w2 = Inr (h4, w3)
    \<and> mutate env g (Suc (length h)) h4 w3 = Inr (h', w')
    \<and> c1 = Individual (length h) \<and> c2 = Individual (Suc (length h))"
  using assms unfolding reproduce_pair_def Let_def
  by (auto split: prod.splits list.splits sum.splits)

lemma reproduce_pair_frame:
  assumes "reproduce_pair wheel env g h w = Inr (c1, c2, h', w')"
  shows "length h' = length h + 2 \<and> (\<forall>a<length h. h' ! a = h ! a)"
proof -
  from reproduce_pair_Inr [OF assms] obtain p1 p2 :: individual and w1 h3 w2 h4 w3 where
    cr: "crossover env g (length h) (Suc (length h))
          (h @ [h ! genes p1, (h @ [h ! genes p1]) ! genes p2]) w1 = Inr (h3, w2)" and
    m1: "mutate env g (length h) h3 w2 = Inr (h4, w3)" and
    m2: "mutate env g (Suc (length h)) h4 w3 = Inr (h', w')" by blast
  note f3 = crossover_frame [OF cr]
  note f4 = mutate_frame [OF m1]
  note f5 = mutate_frame [OF m2]
  have len: "length h' = length h + 2" using f3 f4 f5 by simp
  have "\<forall>a<length h. h' ! a = h ! a"
  proof (intro allI impI)
    fix a assume a: "a < length h"
    then have "h' ! a = h4 ! a" using f5 by simp
    also have "\<dots> = h3 ! a" using f4 a by simp
    also have "\<dots> = (h @ [h ! genes p1, (h @ [h ! genes p1]) ! genes p2]) ! a"
      using f3 a by simp
    also have "\<dots> = h ! a" using a by (simp add: nth_append)
    finally show "h' ! a = h ! a" .
  qed
  with len show ?thesis by blast
qed

lemma reproduce_frame:
  "reproduce wheel env g ch h w = Inr (ch', h', w') \<Longrightarrow>
     length h \<le> length h' \<and> (\<forall>a<length h. h' ! a = h ! a)"
proof (induction wheel env g ch h w rule: reproduce.induct)
  case (1 wheel env g children h w)
  show ?case
  proof (cases "int (length children) < c_size g")
    case True
    with "1.prems" reproduce.simps [of wheel env g children h w]
    obtain c1 c2 h1 w1 where
      pair: "reproduce_pair wheel env g h w = Inr (c1, c2, h1, w1)" and
      rest: "reproduce wheel env g (children @ [c1, c2]) h1 w1 = Inr (ch', h', w')"
      by (auto split: sum.splits prod.splits)
    from "1.IH" [OF True pair refl refl refl rest]
    have "length h1 \<le> length h' \<and> (\<forall>a<length h1. h' ! a = h1 ! a)" .
    with reproduce_pair_frame [OF pair] show ?thesis by auto
  next
    case False
    with "1.prems" reproduce.simps [of wheel env g children h w] have "h' = h" by simp
    then show ?thesis by simp
  qed
qed

lemma reproduce_length:
  "reproduce wheel env g ch h w = Inr (ch', h', w') \<Longrightarrow> int (length ch) \<le> c_size g
     \<Longrightarrow> even (c_size g - int (length ch)) \<Longrightarrow> int (length ch') = c_size g"
proof (induction wheel env g ch h w rule: reproduce.induct)
  case (1 wheel env g children h w)
  show ?case
  proof (cases "int (length children) < c_size g")
    case True
    with "1.prems"(1) reproduce.simps [of wheel env g children h w]
    obtain c1 c2 h1 w1 where
      pair: "reproduce_pair wheel env g h w = Inr (c1, c2, h1, w1)" and
      rest: "reproduce wheel env g (children @ [c1, c2]) h1 w1 = Inr (ch', h', w')"
      by (auto split: sum.splits prod.splits)
    have l: "int (length (children @ [c1, c2])) = int (length children) + 2" by simp
    have le': "int (length (children @ [c1, c2])) \<le> c_size g"
      unfolding l using True "1.prems"(3) by presburger
    have ev': "even (c_size g - int (length (children @ [c1, c2])))"
      unfolding l using "1.prems"(3) by presburger
    from "1.IH" [OF True pair refl refl refl rest le' ev'] show ?thesis .
  next
    case False
    with "1.prems"(1) reproduce.simps [of wheel env g children h w] have "ch' = children"
      by simp
    with False "1.prems"(2) show ?thesis by simp
  qed
qed

section \<open>Elitism\<close>

lemma elitism_length:
  assumes "0 \<le> k" and "k \<le> int (length (population g))"
  shows "length (fst (elitism_selection g k)) = nat k"
  using assms by (simp add: elitism_selection_take slice_stop_in_range)

lemma elitism_subset: "set (fst (elitism_selection g k)) \<subseteq> set (population g)"
proof -
  have "set (fst (elitism_selection g k)) \<subseteq> set (sort_key (\<lambda>i. - fitness i) (population g))"
    unfolding elitism_selection_take by (rule set_take_subset)
  then show ?thesis by simp
qed

lemma elitism_head_max:
  assumes "fst (elitism_selection g k) = b # bs"
  shows "\<forall>x\<in>set (population g). fitness x \<le> fitness b"
proof -
  let ?s = "sort_key (\<lambda>i. - fitness i) (population g)"
  from assms have t: "take (slice_stop (length (population g)) k) ?s = b # bs"
    by (simp add: elitism_selection_take)
  then obtain rest where s: "?s = b # rest"
    by (cases ?s; cases "slice_stop (length (population g)) k") auto
  have "sorted_wrt (\<lambda>a b. fitness b \<le> fitness a) ?s" by (rule sorted_desc_sort_key)
  with s have "\<forall>x\<in>set rest. fitness x \<le> fitness b" by simp
  then have "\<forall>x\<in>set ?s. fitness x \<le> fitness b" by (simp add: s)
  then show ?thesis by simp
qed

section \<open>The steps of evolve\<close>

lemma evolve_with_Inr:
  assumes "evolve_with wheel env g h w = Inr (g', h', w')"
  shows "\<exists>pop1 w1 best others parents w2 g2 children w3 children'.
      evaluate_all env h (population g) w = Inr (pop1, w1) \<and> pop1 \<noteq> []
    \<and> fst (elitism_selection (g\<lparr>population := pop1\<rparr>) (p_size g)) = best # others
    \<and> shuffle env (best # others) w1 = (parents, w2)
    \<and> population g2 = parents \<and> c_size g2 = c_size g \<and> p_size g2 = p_size g
    \<and> genes_len g2 = genes_len g \<and> best_individual g2 = Some best
    \<and> reproduce wheel env g2 [] h w2 = Inr (children, h', w3)
    \<and> shuffle env children w3 = (children', w')
    \<and> g' = g2\<lparr>population := parents @ children'\<rparr>"
proof -
  from assms obtain pop1 w1 where ev: "evaluate_all env h (population g) w = Inr (pop1, w1)"
    unfolding evolve_with_def
    by (cases "evaluate_all env h (population g) w") (auto simp del: reproduce.simps)
  note d1 = assms [unfolded evolve_with_def ev sum.case prod.case]
  then obtain avg where
    av: "true_div env (sum_list (map score pop1)) (int (length pop1)) = Inr avg"
    by (cases "true_div env (sum_list (map score pop1)) (int (length pop1))")
      (auto simp del: reproduce.simps)
  have ne: "pop1 \<noteq> []" using av by (auto simp: true_div_def split: if_splits)
  define ga where "ga = g\<lparr>population := pop1, avg_score := avg\<rparr>"
  note d2 = d1 [unfolded av sum.case Let_def, folded ga_def]
  then obtain best others where
    sel: "fst (elitism_selection ga (p_size ga)) = best # others"
    by (cases "fst (elitism_selection ga (p_size ga))") (auto simp del: reproduce.simps)
  obtain parents w2 where sh: "shuffle env (best # others) w1 = (parents, w2)"
    by (cases "shuffle env (best # others) w1")
  define gb where "gb = ga\<lparr>population := parents, best_individual := Some best\<rparr>"
  note d3 = d2 [unfolded sel list.case sh prod.case, folded gb_def]
  then obtain children hh w3 where
    rp: "reproduce wheel env gb [] h w2 = Inr (children, hh, w3)"
    by (cases "reproduce wheel env gb [] h w2") (auto simp del: reproduce.simps)
  obtain children' w4 where sh2: "shuffle env children w3 = (children', w4)"
    by (cases "shuffle env children w3")
  note d4 = d3 [unfolded rp sum.case prod.case sh2]
  then have res: "g' = gb\<lparr>population := parents @ children'\<rparr> \<and> hh = h' \<and> w4 = w'"
    by simp
  have sel': "fst (elitism_selection (g\<lparr>population := pop1\<rparr>) (p_size g)) = best # others"
    using sel by (simp add: elitism_selection_take ga_def)
  have f: "population gb = parents" "c_size gb = c_size g" "p_size gb = p_size g"
    "genes_len gb = genes_len g" "best_individual gb = Some best"
    by (simp_all add: ga_def gb_def)
  from ev ne sel' sh f rp sh2 res show ?thesis by blast
qed

lemma evolve_with_run:
  assumes "evaluate_all env h (population g) w = Inr (pop1, w1)"
    and "true_div env (sum_list (map score pop1)) (int (length pop1)) = Inr avg"
    and "g1 = g\<lparr>population := pop1, avg_score := avg\<rparr>"
    and "fst (elitism_selection g1 (p_size g1)) = best # others"
    and "shuffle env (best # others) w1 = (parents, w2)"
    and "g2 = g1\<lparr>population := parents, best_individual := Some best\<rparr>"
    and "reproduce wheel env g2 [] h w2 = Inr (children, h', w3)"
    and "shuffle env children w3 = (children', w4)"
  shows "evolve_with wheel env g h w = Inr (g2\<lparr>population := parents @ children'\<rparr>, h', w4)"
proof -
  have a: "fst (elitism_selection (g\<lparr>population := pop1, avg_score := avg\<rparr>)
             (p_size (g\<lparr>population := pop1, avg_score := avg\<rparr>))) = best # others"
    using assms(4) unfolding assms(3) .
  have b: "reproduce wheel env
             (g\<lparr>population := pop1, avg_score := avg\<rparr>
               \<lparr>population := parents, best_individual := Some best\<rparr>) [] h w2
             = Inr (children, h', w3)"
    using assms(7) unfolding assms(6) assms(3) .
  show ?thesis
    unfolding evolve_with_def Let_def assms(1) sum.case prod.case assms(2) a list.case
      assms(5) b assms(8) assms(6) assms(3) ..
qed

section \<open>Runs of the concrete engine\<close>

lemma demo_evaluate: "evaluate_all env0 h0 (population g0) () = Inr (pop_eval, ())"
  by (simp add: env0_def h0_def g0_def pop_eval_def Individual_def get_fitness_def
      fitness_of_def true_div_def int_to_float_def fl_def float_bound_def)

lemma demo_avg:
  "true_div env0 (sum_list (map score pop_eval)) (int (length pop_eval)) = Inr (1 / 2)"
  by (simp add: true_div_def env0_def pop_eval_def float_bound_def)

lemma demo_elitism: "fst (elitism_selection g_eval 2) = [pop_eval ! 1, pop_eval ! 0]"
  by (simp add: elitism_selection_def g_eval_def g0_def pop_eval_def slice_stop_def)

lemma demo_shuffle: "shuffle env0 [a, b] () = ([b, a], ())"
  by (simp add: shuffle_def env0_def)

lemma demo_roulette:
  "roulette_wheel_selection env0 g_par 2 () = ([pop_eval ! 1, pop_eval ! 1], ())"
  by (simp add: roulette_wheel_selection_def g_par_def g_eval_def g0_def pop_eval_def env0_def
      uniform_def eval_nat_numeral)

lemma demo_crossover:
  "crossover env0 g_par 2 3 [[-1, -2], [3, 4], [3, 4], [3, 4]] ()
     = Inr ([[-1, -2], [3, 4], [3, 4], [3, 4]], ())"
  by (simp add: crossover_def crossover_at_def assign_prefix_def read_prefix_def slice_stop_def
      g_par_def g_eval_def g0_def env0_def eval_nat_numeral)

lemma demo_mutate2:
  "mutate env0 g_par 2 [[-1, -2], [3, 4], [3, 4], [3, 4]] ()
     = Inr ([[-1, -2], [3, 4], [3, 4], [3, 4]], ())"
  by (simp add: mutate_def g_par_def g_eval_def g0_def env0_def eval_nat_numeral)

lemma demo_mutate3:
  "mutate env0 g_par 3 [[-1, -2], [3, 4], [3, 4], [3, 4]] ()
     = Inr ([[-1, -2], [3, 4], [3, 4], [3, 4]], ())"
  by (simp add: mutate_def g_par_def g_eval_def g0_def env0_def eval_nat_numeral)

lemma demo_pair:
  "reproduce_pair (\<lambda>g' w'. roulette_wheel_selection env0 g' 2 w') env0 g_par h0 ()
     = Inr (Individual 2, Individual 3, h_after, ())"
  using demo_crossover demo_mutate2 demo_mutate3
  by (simp add: reproduce_pair_def demo_roulette Let_def h0_def h_after_def pop_eval_def
      eval_nat_numeral)

lemma demo_csize: "c_size g_par = 2"
  by (simp add: g_par_def g_eval_def g0_def)

lemma demo_reproduce:
  "reproduce (\<lambda>g' w'. roulette_wheel_selection env0 g' 2 w') env0 g_par [] h0 ()
     = Inr ([Individual 2, Individual 3], h_after, ())"
proof -
  let ?wh = "\<lambda>g' w'. roulette_wheel_selection env0 g' 2 w'"
  have a: "reproduce ?wh env0 g_par [Individual 2, Individual 3] h_after ()
             = Inr ([Individual 2, Individual 3], h_after, ())"
    by (subst reproduce.simps) (simp add: demo_csize)
  have b: "reproduce ?wh env0 g_par [] h0 ()
             = reproduce ?wh env0 g_par ([] @ [Individual 2, Individual 3]) h_after ()"
    by (subst reproduce.simps) (simp only: demo_csize demo_pair list.size sum.case prod.case,
        simp)
  show ?thesis using a b by simp
qed

lemma demo_evolve: "evolve env0 g0 h0 () = Inr (g_after, h_after, ())"
proof -
  have sel: "fst (elitism_selection g_eval (p_size g_eval)) = [pop_eval ! 1, pop_eval ! 0]"
    using demo_elitism by (simp add: g_eval_def g0_def)
  have g2: "g_par = g_eval\<lparr>population := [pop_eval ! 0, pop_eval ! 1],
                            best_individual := Some (pop_eval ! 1)\<rparr>"
    by (simp add: g_par_def g_eval_def g0_def pop_eval_def)
  have r: "g_par\<lparr>population := [pop_eval ! 0, pop_eval ! 1] @ [Individual 3, Individual 2]\<rparr>
             = g_after"
    by (simp add: g_after_def pop_eval_def)
  from evolve_with_run [OF demo_evaluate demo_avg g_eval_def sel demo_shuffle g2
      demo_reproduce demo_shuffle]
  show ?thesis unfolding evolve_def r .
qed

lemma demo_evolve_p0: "evolve env0 (g0\<lparr>p_size := 0\<rparr>) h0 () = Inl IndexError"
proof -
  have a: "evaluate_all env0 h0 (population (g0\<lparr>p_size := 0\<rparr>)) () = Inr (pop_eval, ())"
    using demo_evaluate by simp
  show ?thesis
    unfolding evolve_def evolve_with_def a
    by (simp add: Let_def demo_avg elitism_selection_def slice_stop_def)
qed

lemma demo_next_eval: "evaluate_all env0 h_after (population g_after) () = Inr (pop_next, ())"
  by (simp add: env0_def h_after_def g_after_def pop_eval_def pop_next_def Individual_def
      get_fitness_def fitness_of_def true_div_def int_to_float_def fl_def float_bound_def)

lemma demo_save_all:
  "save_all env0 g_after h_after Map.empty ()
     = Inr (g_after\<lparr>population := pop_next\<rparr>, [0 \<mapsto> [-1, -2], 1 \<mapsto> [3, 4]], ())"
proof -
  have a: "population (g_after\<lparr>population := pop_next\<rparr>) = pop_next" by simp
  have b: "length (fst (elitism_selection (g_after\<lparr>population := pop_next\<rparr>)
                          (p_size (g_after\<lparr>population := pop_next\<rparr>)))) = 2"
    by (simp add: elitism_selection_def slice_stop_def pop_next_def pop_eval_def g_after_def
        g_par_def g_eval_def g0_def)
  have c: "[0..<2] = [0, Suc 0]" by (simp add: eval_nat_numeral)
  have d: "write_slots h_after pop_next [0, Suc 0] Map.empty = [0 \<mapsto> [-1, -2], 1 \<mapsto> [3, 4]]"
    by (simp add: pop_next_def pop_eval_def h_after_def)
  show ?thesis
    unfolding save_all_def demo_next_eval sum.case prod.case Let_def a b c d ..
qed

lemma demo_save_survivors:
  "map (\<lambda>p. h_after ! genes p)
       (fst (elitism_selection (g_after\<lparr>population := pop_next\<rparr>) 2))
     = [[3, 4], [3, 4]]"
  by (simp add: elitism_selection_def slice_stop_def pop_next_def pop_eval_def h_after_def)

lemma env0_perm: "shuffle_permutes env0"
  by (simp add: shuffle_permutes_def env0_def)

section \<open>GA.evolve: the best individual\<close>

text \<open>
  C8. Whenever \<^verbatim>\<open>evolve\<close> returns, whatever the wheel draws, \<open>best_individual\<close> is an
  individual of the population as the evaluation of this call left it, and no individual
  of that population has a greater fitness. (A call that returns has a non-empty
  population and keeps at least one parent: the division by the population size and
  \<^verbatim>\<open>self.population[0]\<close> raise otherwise.)
\<close>

theorem evolve_best_individual:
  assumes "evolve_with wheel env g h w = Inr (g', h', w')"
  shows "\<exists>pop1 w1 b. evaluate_all env h (population g) w = Inr (pop1, w1)
           \<and> best_individual g' = Some b \<and> b \<in> set pop1
           \<and> (\<forall>x\<in>set pop1. fitness x \<le> fitness b)"
proof -
  from evolve_with_Inr [OF assms] obtain pop1 w1 best others parents children'
    and g2 :: ga where
    ev: "evaluate_all env h (population g) w = Inr (pop1, w1)" and
    sel: "fst (elitism_selection (g\<lparr>population := pop1\<rparr>) (p_size g)) = best # others" and
    b: "best_individual g2 = Some best" and
    g': "g' = g2\<lparr>population := parents @ children'\<rparr>" by blast
  have mem: "best \<in> set pop1"
    using elitism_subset [of "g\<lparr>population := pop1\<rparr>" "p_size g"] sel by auto
  have mx: "\<forall>x\<in>set pop1. fitness x \<le> fitness best"
    using elitism_head_max [OF sel] by simp
  have "best_individual g' = Some best" using b g' by simp
  with ev mem mx show ?thesis by blast
qed

theorem evolve_best_individual_witness:
  "evolve env0 g0 h0 () = Inr (g_after, h_after, ())
     \<and> evaluate_all env0 h0 (population g0) () = Inr (pop_eval, ())
     \<and> best_individual g_after = Some (pop_eval ! 1)
     \<and> pop_eval ! 1 \<in> set pop_eval
     \<and> fitness (pop_eval ! 0) \<le> fitness (pop_eval ! 1)"
proof -
  note run = demo_evolve [unfolded evolve_def]
  from evolve_best_individual [OF run] obtain pop1 w1 and b :: individual where
    ev: "evaluate_all env0 h0 (population g0) () = Inr (pop1, w1)" and
    b: "best_individual g_after = Some b" and
    mem: "b \<in> set pop1" and
    mx: "\<forall>x\<in>set pop1. fitness x \<le> fitness b" by blast
  from ev demo_evaluate have p: "pop1 = pop_eval" by simp
  have "best_individual g_after = Some (pop_eval ! 1)" by (simp add: g_after_def g_par_def)
  with b have b': "b = pop_eval ! 1" by simp
  have "pop_eval ! 0 \<in> set pop_eval" by (simp add: pop_eval_def)
  with mx have le: "fitness (pop_eval ! 0) \<le> fitness (pop_eval ! 1)"
    unfolding p b' by blast
  from mem have mem': "pop_eval ! 1 \<in> set pop_eval" unfolding p b' .
  from demo_evolve demo_evaluate b mem' le show ?thesis unfolding b' by blast
qed

section \<open>GA.evolve: the genes of the parents\<close>

text \<open>
  C9. Whenever \<^verbatim>\<open>evolve\<close> returns, whatever the wheel draws, every gene vector that
  the heap held at the call is in the heap afterwards with the same components: the
  copies that crossover and mutation write to are at fresh addresses. In particular the
  genes of every individual that the elitism selection of this call kept as a parent are
  what they were at selection time.
\<close>

theorem evolve_keeps_parent_genes:
  assumes "evolve_with wheel env g h w = Inr (g', h', w')"
    and "\<forall>p\<in>set (population g). genes p < length h"
  shows "length h \<le> length h' \<and> (\<forall>a<length h. h' ! a = h ! a)
     \<and> (\<exists>pop1 w1. evaluate_all env h (population g) w = Inr (pop1, w1)
          \<and> (\<forall>p\<in>set (fst (elitism_selection (g\<lparr>population := pop1\<rparr>) (p_size g))).
                genes p < length h \<and> h' ! genes p = h ! genes p))"
proof -
  from evolve_with_Inr [OF assms(1)] obtain pop1 w1 w2 children w3 and g2 :: ga where
    ev: "evaluate_all env h (population g) w = Inr (pop1, w1)" and
    rp: "reproduce wheel env g2 [] h w2 = Inr (children, h', w3)" by blast
  note fr = reproduce_frame [OF rp]
  have "\<forall>p\<in>set (fst (elitism_selection (g\<lparr>population := pop1\<rparr>) (p_size g))).
          genes p < length h \<and> h' ! genes p = h ! genes p"
  proof
    fix p assume "p \<in> set (fst (elitism_selection (g\<lparr>population := pop1\<rparr>) (p_size g)))"
    with elitism_subset [of "g\<lparr>population := pop1\<rparr>" "p_size g"] have "p \<in> set pop1" by auto
    from genes_of_evaluated [OF conjunct2 [OF evaluate_all_Inr [OF ev]] this] assms(2)
    have "genes p < length h" by auto
    with fr show "genes p < length h \<and> h' ! genes p = h ! genes p" by simp
  qed
  with fr ev show ?thesis by blast
qed

theorem evolve_keeps_parent_genes_witness:
  "evolve env0 g0 h0 () = Inr (g_after, h_after, ())
     \<and> genes (Individual 0) < length h0 \<and> genes (Individual 1) < length h0
     \<and> length h0 \<le> length h_after
     \<and> h_after ! 0 = h0 ! 0 \<and> h_after ! 1 = h0 ! 1
     \<and> fst (elitism_selection (g0\<lparr>population := pop_eval\<rparr>) (p_size g0))
          = [pop_eval ! 1, pop_eval ! 0]
     \<and> h_after ! genes (pop_eval ! 1) = h0 ! genes (pop_eval ! 1)
     \<and> h_after ! genes (pop_eval ! 0) = h0 ! genes (pop_eval ! 0)"
proof -
  note run = demo_evolve [unfolded evolve_def]
  have a: "genes (Individual 0) < length h0" "genes (Individual 1) < length h0"
    by (simp_all add: Individual_def h0_def)
  have pre: "\<forall>p\<in>set (population g0). genes p < length h0"
    using a by (simp add: g0_def)
  have sel: "fst (elitism_selection (g0\<lparr>population := pop_eval\<rparr>) (p_size g0))
               = [pop_eval ! 1, pop_eval ! 0]"
    by (simp add: elitism_selection_def g0_def pop_eval_def slice_stop_def)
  from evolve_keeps_parent_genes [OF run pre] obtain pop1 w1 where
    len: "length h0 \<le> length h_after" and
    fr: "\<forall>a<length h0. h_after ! a = h0 ! a" and
    ev: "evaluate_all env0 h0 (population g0) () = Inr (pop1, w1)" and
    par: "\<forall>p\<in>set (fst (elitism_selection (g0\<lparr>population := pop1\<rparr>) (p_size g0))).
            genes p < length h0 \<and> h_after ! genes p = h0 ! genes p" by blast
  from ev demo_evaluate have p: "pop1 = pop_eval" by simp
  have l: "(0::nat) < length h0" "(1::nat) < length h0" by (simp_all add: h0_def)
  from fr l have f0: "h_after ! 0 = h0 ! 0" and f1: "h_after ! 1 = h0 ! 1" by blast+
  from par have par': "\<forall>p\<in>set [pop_eval ! 1, pop_eval ! 0].
            genes p < length h0 \<and> h_after ! genes p = h0 ! genes p"
    unfolding p sel .
  then have g1: "h_after ! genes (pop_eval ! 1) = h0 ! genes (pop_eval ! 1)"
    and g0': "h_after ! genes (pop_eval ! 0) = h0 ! genes (pop_eval ! 0)" by simp_all
  from demo_evolve a len f0 f1 sel g1 g0' show ?thesis by blast
qed

section \<open>GA.evolve: the size of the population\<close>

text \<open>
  C4 as it is stated fails. After \<^verbatim>\<open>evolve\<close> on the engine \<open>g0\<close> (\<open>p_size\<close> 2, \<open>c_size\<close> 2,
  two individuals whose fitnesses come out as 100000 and 200000) the population has 4
  individuals, and the evaluation that opens the next \<^verbatim>\<open>evolve\<close> runs over all 4 of
  them: nothing reduces the population to \<open>p_size\<close> before that evaluation. With
  \<open>p_size\<close> 0 the same population has at least \<open>p_size\<close> individuals and \<^verbatim>\<open>evolve\<close>
  raises \<^verbatim>\<open>IndexError\<close> at \<^verbatim>\<open>self.population[0]\<close>.
\<close>

theorem evolve_next_evaluation_counterexample:
  "evolve env0 g0 h0 () = Inr (g_after, h_after, ())
     \<and> p_size g_after = 2 \<and> length (population g_after) = 4
     \<and> evaluate_all env0 h_after (population g_after) () = Inr (pop_next, ())
     \<and> length pop_next = 4
     \<and> evolve env0 (g0\<lparr>p_size := 0\<rparr>) h0 () = Inl IndexError"
proof -
  have a: "p_size g_after = 2" "length (population g_after) = 4"
    by (simp_all add: g_after_def g_par_def g_eval_def g0_def pop_eval_def)
  have b: "length pop_next = 4" by (simp add: pop_next_def pop_eval_def)
  from demo_evolve a demo_next_eval b demo_evolve_p0 show ?thesis by blast
qed

text \<open>
  C4, amended. Whenever \<^verbatim>\<open>evolve\<close> returns, whatever the wheel draws, on an engine with
  1 <= p_size <= size of the population and an even c_size >= 0, under a shuffle that
  rearranges, the population has exactly p_size + c_size individuals afterwards and
  p_size and c_size are what they were; the evaluation that opens the next
  \<^verbatim>\<open>evolve\<close> runs over all p_size + c_size of them, and the elitism selection that
  follows that evaluation reduces them to p_size.
\<close>

theorem evolve_population_size:
  assumes run: "evolve_with wheel env g h w = Inr (g', h', w')"
    and sp: "shuffle_permutes env"
    and p1: "1 \<le> p_size g" and p2: "p_size g \<le> int (length (population g))"
    and c0: "0 \<le> c_size g" and ce: "even (c_size g)"
  shows "int (length (population g')) = p_size g + c_size g
     \<and> p_size g' = p_size g \<and> c_size g' = c_size g
     \<and> (\<forall>pop2 w2. evaluate_all env h' (population g') w' = Inr (pop2, w2) \<longrightarrow>
            int (length pop2) = p_size g + c_size g
          \<and> int (length (fst (elitism_selection (g'\<lparr>population := pop2\<rparr>) (p_size g'))))
              = p_size g)"
proof -
  from evolve_with_Inr [OF run] obtain pop1 w1 best others parents w2 children w3 children'
    and g2 :: ga where
    ev: "evaluate_all env h (population g) w = Inr (pop1, w1)" and
    sel: "fst (elitism_selection (g\<lparr>population := pop1\<rparr>) (p_size g)) = best # others" and
    sh: "shuffle env (best # others) w1 = (parents, w2)" and
    f: "population g2 = parents" "c_size g2 = c_size g" "p_size g2 = p_size g" and
    rp: "reproduce wheel env g2 [] h w2 = Inr (children, h', w3)" and
    sh2: "shuffle env children w3 = (children', w')" and
    g': "g' = g2\<lparr>population := parents @ children'\<rparr>" by blast
  note L = evaluate_all_Inr [OF ev]
  have "length (fst (elitism_selection (g\<lparr>population := pop1\<rparr>) (p_size g))) = nat (p_size g)"
    using elitism_length [of "p_size g" "g\<lparr>population := pop1\<rparr>"] p1 p2 L by simp
  with sel p1 have sl: "int (length (best # others)) = p_size g" by simp
  have pl: "length parents = length (best # others)" using shuffle_length [OF sp sh] .
  have cl: "int (length children) = c_size g"
    using reproduce_length [OF rp] c0 ce f by simp
  have cl': "length children' = length children" using shuffle_length [OF sp sh2] .
  have r1: "int (length (population g')) = p_size g + c_size g"
    using g' pl sl cl cl' by simp
  have r2: "p_size g' = p_size g" "c_size g' = c_size g" using g' f by simp_all
  have r3: "\<forall>pop2 w2. evaluate_all env h' (population g') w' = Inr (pop2, w2) \<longrightarrow>
            int (length pop2) = p_size g + c_size g
          \<and> int (length (fst (elitism_selection (g'\<lparr>population := pop2\<rparr>) (p_size g'))))
              = p_size g"
  proof (intro allI impI)
    fix pop2 w2 assume e2: "evaluate_all env h' (population g') w' = Inr (pop2, w2)"
    have a: "int (length pop2) = p_size g + c_size g"
      using evaluate_all_Inr [OF e2] r1 by simp
    have "int (length (fst (elitism_selection (g'\<lparr>population := pop2\<rparr>) (p_size g'))))
              = p_size g"
      using elitism_length [of "p_size g" "g'\<lparr>population := pop2\<rparr>"] a p1 c0 r2 by simp
    with a show "int (length pop2) = p_size g + c_size g
          \<and> int (length (fst (elitism_selection (g'\<lparr>population := pop2\<rparr>) (p_size g'))))
              = p_size g" by blast
  qed
  from r1 r2 r3 show ?thesis by blast
qed

theorem evolve_population_size_witness:
  "evolve env0 g0 h0 () = Inr (g_after, h_after, ())
     \<and> shuffle_permutes env0
     \<and> 1 \<le> p_size g0 \<and> p_size g0 \<le> int (length (population g0))
     \<and> 0 \<le> c_size g0 \<and> even (c_size g0)
     \<and> p_size g0 + c_size g0 = 4
     \<and> int (length (population g_after)) = 4
     \<and> p_size g_after = p_size g0 \<and> c_size g_after = c_size g0
     \<and> evaluate_all env0 h_after (population g_after) () = Inr (pop_next, ())
     \<and> int (length pop_next) = 4
     \<and> int (length (fst (elitism_selection (g_after\<lparr>population := pop_next\<rparr>)
                           (p_size g_after)))) = p_size g0"
proof -
  note run = demo_evolve [unfolded evolve_def]
  have a: "1 \<le> p_size g0" "p_size g0 \<le> int (length (population g0))"
    "0 \<le> c_size g0" "even (c_size g0)" "p_size g0 + c_size g0 = 4"
    by (simp_all add: g0_def)
  from evolve_population_size [OF run env0_perm a(1) a(2) a(3) a(4)]
  have r: "int (length (population g_after)) = p_size g0 + c_size g0"
    "p_size g_after = p_size g0" "c_size g_after = c_size g0"
    and nxt: "\<forall>pop2 w2. evaluate_all env0 h_after (population g_after) () = Inr (pop2, w2) \<longrightarrow>
            int (length pop2) = p_size g0 + c_size g0
          \<and> int (length (fst (elitism_selection (g_after\<lparr>population := pop2\<rparr>)
                                 (p_size g_after)))) = p_size g0"
    by blast+
  from nxt demo_next_eval
  have n: "int (length pop_next) = p_size g0 + c_size g0"
    "int (length (fst (elitism_selection (g_after\<lparr>population := pop_next\<rparr>)
                         (p_size g_after)))) = p_size g0"
    by blast+
  from demo_evolve env0_perm a r n demo_next_eval show ?thesis by simp
qed

section \<open>GA.save_all: the slots\<close>

text \<open>
  C2. \<^verbatim>\<open>save_all\<close> on the engine and the heap that \<^verbatim>\<open>evolve\<close> leaves from \<open>g0\<close>:
  \<open>p_size\<close> 2 and a population of four, in this order the genes (-1, -2), which score 0,
  and three times the genes (3, 4), which score 1. The two survivors of the elitism
  selection both have the genes (3, 4), and the slot 0 receives (-1, -2): the loop writes
  \<^verbatim>\<open>self.population[i].genes\<close>, the population in the order it had before the
  selection, and not the genes of the i-th survivor.
\<close>

theorem save_all_writes_population_order:
  "save_all env0 g_after h_after Map.empty ()
     = Inr (g_after\<lparr>population := pop_next\<rparr>, [0 \<mapsto> [-1, -2], 1 \<mapsto> [3, 4]], ())
   \<and> p_size g_after = 2
   \<and> map (\<lambda>p. h_after ! genes p)
          (fst (elitism_selection (g_after\<lparr>population := pop_next\<rparr>) 2))
       = [[3, 4], [3, 4]]"
proof -
  have "p_size g_after = 2" by (simp add: g_after_def g_par_def g_eval_def g0_def)
  with demo_save_all demo_save_survivors show ?thesis by blast
qed

end
